theory Spec2Isabelle
  imports Main "HOL-Library.Sublist" "HOL-Library.AList" "HOL-Library.Char_ord"
    "HOL-Library.List_Lexorder"
begin

section \<open>Python values used by the query string manager\<close>

text \<open>
  Strings are lists of characters; a character stands for a code point below 256.
  A Python \<open>dict\<close> is an association list in insertion order whose keys are distinct;
  \<open>d.get(k)\<close> is \<open>map_of d k\<close> and \<open>d.update({k: v})\<close> is \<open>AList.update k v d\<close>:
  an existing key keeps its position, a new key goes to the end.
\<close>

type_synonym querystring = "(string \<times> string) list"

text \<open>Every exception the modelled code can raise. \<open>BadRequest detail parameter\<close> carries
  the message and the \<open>source={'parameter': ...}\<close> entry; \<open>TypeError\<close>, \<open>ValueError\<close>,
  \<open>KeyError\<close> and \<open>RegistryError\<close> are the exceptions no handler of the code catches.\<close>

datatype error =
    BadRequest string string
  | InvalidInclude string
  | TypeError
  | ValueError
  | KeyError
  | RegistryError

text \<open>\<open>current_app.config\<close>: the three options the parser reads; \<open>None\<close> is an unset option.\<close>

record config =
  ALLOW_DISABLE_PAGINATION :: "bool option"
  MAX_PAGE_SIZE :: "int option"
  MAX_INCLUDE_DEPTH :: "int option"

subsection \<open>\<open>str.split\<close>, \<open>str.join\<close>, \<open>str.index\<close>, slices, \<open>str.replace\<close>\<close>

text \<open>\<open>s.split(c)\<close> for a one-character separator: never empty, \<open>''.split(c) == ['']\<close>.\<close>

fun split :: "char \<Rightarrow> string \<Rightarrow> string list" where
  "split c [] = [[]]"
| "split c (x # xs) =
     (if x = c then [] # split c xs
      else (case split c xs of [] \<Rightarrow> [[x]] | w # ws \<Rightarrow> (x # w) # ws))"

text \<open>\<open>sep.join(parts)\<close>.\<close>

fun join :: "string \<Rightarrow> string list \<Rightarrow> string" where
  "join sep [] = []"
| "join sep [w] = w"
| "join sep (w # v # ws) = w @ sep @ join sep (v # ws)"

text \<open>\<open>s.index(c)\<close>: the position of the first \<open>c\<close>; \<open>None\<close> where Python raises
  \<open>ValueError\<close>.\<close>

fun index :: "char \<Rightarrow> string \<Rightarrow> nat option" where
  "index c [] = None"
| "index c (x # xs) = (if x = c then Some 0 else map_option Suc (index c xs))"

text \<open>\<open>s[i:j]\<close> for indices \<open>0 \<le> i\<close> and \<open>0 \<le> j\<close>: empty when \<open>j \<le> i\<close>.\<close>

definition slice :: "nat \<Rightarrow> nat \<Rightarrow> string \<Rightarrow> string" where
  "slice i j s = drop i (take j s)"

text \<open>\<open>s.replace(c, '')\<close>: every occurrence of \<open>c\<close> is removed.\<close>

definition replace_empty :: "char \<Rightarrow> string \<Rightarrow> string" where
  "replace_empty c s = filter (\<lambda>x. x \<noteq> c) s"

subsection \<open>\<open>int(str)\<close> and \<open>str(int)\<close>\<close>

text \<open>
  \<open>int(s)\<close> on a string: white space is stripped at both ends, then an optional sign,
  then decimal digits, single underscores allowed between digits. \<open>None\<close> is
  \<open>ValueError\<close>. Below code point 256 the white space of \<open>int\<close> is 9 to 13, 32, 133
  and 160, and the decimal digits are \<open>0\<close> to \<open>9\<close>. The limit on the number of digits
  that Python 3.11 introduced is not modelled.
\<close>

definition isspace :: "char \<Rightarrow> bool" where
  "isspace c = ((of_char c :: nat) \<in> {9, 10, 11, 12, 13, 32, 133, 160})"

definition strip :: "string \<Rightarrow> string" where
  "strip s = rev (dropWhile isspace (rev (dropWhile isspace s)))"

definition isdigit :: "char \<Rightarrow> bool" where
  "isdigit c = (48 \<le> (of_char c :: nat) \<and> (of_char c :: nat) \<le> 57)"

definition digit_value :: "char \<Rightarrow> nat" where
  "digit_value c = of_char c - 48"

fun parse_digits :: "nat \<Rightarrow> string \<Rightarrow> nat option" where
  "parse_digits acc [] = None"
| "parse_digits acc [c] = (if isdigit c then Some (10 * acc + digit_value c) else None)"
| "parse_digits acc (c # d # ds) =
     (if isdigit c
      then (if d = CHR ''_'' then parse_digits (10 * acc + digit_value c) ds
            else parse_digits (10 * acc + digit_value c) (d # ds))
      else None)"

definition int_of_str :: "string \<Rightarrow> int option" where
  "int_of_str s =
     (case strip s of
        [] \<Rightarrow> None
      | c # cs \<Rightarrow>
          if c = CHR ''-'' then map_option (\<lambda>n. - int n) (parse_digits 0 cs)
          else if c = CHR ''+'' then map_option int (parse_digits 0 cs)
          else map_option int (parse_digits 0 (c # cs)))"

text \<open>\<open>'{}'.format(n)\<close> for an integer \<open>n\<close>: its decimal digits, with a minus sign when
  negative.\<close>

fun str_nat :: "nat \<Rightarrow> string" where
  "str_nat n =
     (if n < 10 then [char_of (48 + n)]
      else str_nat (n div 10) @ [char_of (48 + n mod 10)])"

declare str_nat.simps [simp del]

definition str_int :: "int \<Rightarrow> string" where
  "str_int i = (if i < 0 then CHR ''-'' # str_nat (nat (- i)) else str_nat (nat i))"

section \<open>The query string manager (\<open>querystring.py\<close>)\<close>

text \<open>A value of the dictionary \<open>_get_key_values\<close> returns: the raw string, or the list
  of its comma-separated parts when it holds a comma.\<close>

datatype item_value = Scalar string | Multi "string list"

type_synonym key_values = "(string \<times> item_value) list"

text \<open>
  \<open>_get_key_values(name)\<close>. The loop over \<open>self.qs.items()\<close> with the dictionary
  \<open>results\<close> built so far; \<open>key.index\<close> raising \<open>ValueError\<close> is the only exception
  the body can raise, and the handler turns it into \<open>BadRequest\<close> with the key as source.
\<close>

fun get_key_values_loop :: "string \<Rightarrow> querystring \<Rightarrow> key_values \<Rightarrow> error + key_values" where
  "get_key_values_loop name [] results = Inr results"
| "get_key_values_loop name ((key, value) # rest) results =
     (if \<not> prefix name key then get_key_values_loop name rest results
      else
        (case index (CHR ''['') key of
           None \<Rightarrow> Inl (BadRequest ''Parse error'' key)
         | Some i \<Rightarrow>
             (case index (CHR '']'') key of
                None \<Rightarrow> Inl (BadRequest ''Parse error'' key)
              | Some key_end \<Rightarrow>
                  (let key_start = i + 1;
                       item_key = slice key_start key_end key;
                       item_value = (if CHR '','' \<in> set value
                                     then Multi (split (CHR '','') value)
                                     else Scalar value)
                   in get_key_values_loop name rest (AList.update item_key item_value results)))))"

definition get_key_values :: "string \<Rightarrow> querystring \<Rightarrow> error + key_values" where
  "get_key_values name qs = get_key_values_loop name qs []"

text \<open>\<open>int(value)\<close> on a value of that dictionary: a list is a \<open>TypeError\<close>.\<close>

fun int_of_value :: "item_value \<Rightarrow> error + int" where
  "int_of_value (Multi vs) = Inl TypeError"
| "int_of_value (Scalar s) = (case int_of_str s of None \<Rightarrow> Inl ValueError | Some n \<Rightarrow> Inr n)"

text \<open>The first loop of \<open>pagination\<close>: each key is checked, then its value;
  only \<open>ValueError\<close> is caught.\<close>

fun check_page :: "key_values \<Rightarrow> error + unit" where
  "check_page [] = Inr ()"
| "check_page ((key, value) # rest) =
     (if key \<noteq> ''number'' \<and> key \<noteq> ''size''
      then Inl (BadRequest (key @ '' is not a valid parameter of pagination'') ''page'')
      else
        (case int_of_value value of
           Inl ValueError \<Rightarrow> Inl (BadRequest ''Parse error'' (''page['' @ key @ '']''))
         | Inl e \<Rightarrow> Inl e
         | Inr n \<Rightarrow> check_page rest))"

text \<open>The check of \<open>ALLOW_DISABLE_PAGINATION\<close>: \<open>int(result.get('size', 1)) == 0\<close> is
  evaluated only when the option is \<open>False\<close>.\<close>

definition check_disable :: "config \<Rightarrow> key_values \<Rightarrow> error + unit" where
  "check_disable cfg result =
     (if ALLOW_DISABLE_PAGINATION cfg = Some False
      then
        (case (case map_of result ''size'' of None \<Rightarrow> Inr 1 | Some v \<Rightarrow> int_of_value v) of
           Inl e \<Rightarrow> Inl e
         | Inr n \<Rightarrow>
             if n = 0
             then Inl (BadRequest ''You are not allowed to disable pagination'' ''page[size]'')
             else Inr ())
      else Inr ())"

text \<open>The check of \<open>MAX_PAGE_SIZE\<close>.\<close>

definition check_max_size :: "config \<Rightarrow> key_values \<Rightarrow> error + unit" where
  "check_max_size cfg result =
     (case MAX_PAGE_SIZE cfg of
        None \<Rightarrow> Inr ()
      | Some m \<Rightarrow>
          (case map_of result ''size'' of
             None \<Rightarrow> Inr ()
           | Some v \<Rightarrow>
               (case int_of_value v of
                  Inl e \<Rightarrow> Inl e
                | Inr n \<Rightarrow>
                    if n > m
                    then Inl (BadRequest (''Maximum page size is '' @ str_int m) ''page[size]'')
                    else Inr ())))"

definition pagination :: "config \<Rightarrow> querystring \<Rightarrow> error + key_values" where
  "pagination cfg qs =
     (case get_key_values ''page'' qs of
        Inl e \<Rightarrow> Inl e
      | Inr result \<Rightarrow>
          (case check_page result of
             Inl e \<Rightarrow> Inl e
           | Inr u \<Rightarrow>
               (case check_disable cfg result of
                  Inl e \<Rightarrow> Inl e
                | Inr u \<Rightarrow>
                    (case check_max_size cfg result of
                       Inl e \<Rightarrow> Inl e
                     | Inr u \<Rightarrow> Inr result))))"

text \<open>\<open>fields\<close>: every value of the dictionary becomes a list.\<close>

fun as_list :: "item_value \<Rightarrow> string list" where
  "as_list (Scalar s) = [s]"
| "as_list (Multi vs) = vs"

definition fields_qs :: "querystring \<Rightarrow> error + (string \<times> string list) list" where
  "fields_qs qs =
     (case get_key_values ''fields'' qs of
        Inl e \<Rightarrow> Inl e
      | Inr result \<Rightarrow> Inr (map (\<lambda>(key, value). (key, as_list value)) result))"

text \<open>\<open>sorting\<close>: one entry per comma-separated token of \<open>sort\<close>.\<close>

datatype order = Asc | Desc

record sort_entry =
  field :: string
  order :: order

definition sort_entry_of :: "string \<Rightarrow> sort_entry" where
  "sort_entry_of sort_field =
     \<lparr>field = replace_empty (CHR ''-'') sort_field,
      order = (if prefix ''-'' sort_field then Desc else Asc)\<rparr>"

definition sorting :: "querystring \<Rightarrow> sort_entry list" where
  "sorting qs =
     (case map_of qs ''sort'' of
        None \<Rightarrow> []
      | Some s \<Rightarrow> if s = [] then [] else map sort_entry_of (split (CHR '','') s))"

text \<open>
  \<open>include\<close>. \<open>include_param\<close> is the raw string (the default \<open>[]\<close> of an absent
  parameter behaves as the empty string: nothing to iterate, and falsy). The \<open>for\<close> loop
  runs over \<open>include_param\<close> itself, so \<open>include_path\<close> is each character of the raw
  string in turn, as a one-character string.
\<close>

definition too_deep :: "int \<Rightarrow> string \<Rightarrow> bool" where
  "too_deep d include_path = (int (length (split (CHR ''.'') include_path)) > d)"

definition include_qs :: "config \<Rightarrow> querystring \<Rightarrow> error + string list" where
  "include_qs cfg qs =
     (let include_param = (case map_of qs ''include'' of None \<Rightarrow> [] | Some s \<Rightarrow> s)
      in
        (case MAX_INCLUDE_DEPTH cfg of
           Some d \<Rightarrow>
             if list_ex (\<lambda>ch. too_deep d [ch]) include_param
             then Inl (InvalidInclude
                    (''You can't use include through more than '' @ str_int d @ '' relationships''))
             else Inr (if include_param = [] then [] else split (CHR '','') include_param)
         | None \<Rightarrow> Inr (if include_param = [] then [] else split (CHR '','') include_param)))"

section \<open>Schemas (\<open>schema.py\<close>)\<close>

text \<open>
  A declared field is an attribute or a relationship; a relationship carries what its
  \<open>__dict__['_Relationship__schema']\<close> holds: a class name to look up in the class
  registry, a schema class, or a schema instance. A schema class has its \<open>__name__\<close>,
  its \<open>Meta.type_\<close> and its \<open>_declared_fields\<close> in declaration order. A schema
  instance has its class, the attributes \<open>only\<close>, \<open>include_data\<close> and \<open>many\<close>, and
  \<open>declared_fields\<close>, its own copy of the declared fields of the class. The attribute
  \<open>only\<close> is \<open>None\<close>, the set the constructor made of the argument, or the tuple
  that \<open>compute_schema\<close> assigns.
\<close>

datatype only_value = OnlyTuple "string list" | OnlySet "string set"

fun only_names :: "only_value \<Rightarrow> string set" where
  "only_names (OnlyTuple t) = set t"
| "only_names (OnlySet X) = X"

datatype schema_field = Attribute | Relationship rel_schema
and rel_schema = ClassName string | SchemaClass schema_cls | SchemaInstance schema
and schema_cls =
  SchemaCls (cls_name: string) (cls_type: string)
    (cls_declared_fields: "(string \<times> schema_field) list")
and schema =
  Schema (schema_class: schema_cls) (only: "only_value option") (include_data: "string list")
    (many: bool) (declared_fields: "(string \<times> schema_field) list")

text \<open>The keyword arguments dictionary: the three keys the code reads or writes;
  \<open>None\<close> is an absent key (for \<open>only\<close>, also a key whose value is \<open>None\<close>).\<close>

record kwargs =
  kw_only :: "string list option"
  kw_include_data :: "string list option"
  kw_many :: "bool option"

definition empty_kwargs :: kwargs where
  "empty_kwargs = \<lparr>kw_only = None, kw_include_data = None, kw_many = None\<rparr>"

text \<open>
  \<open>schema_cls(**schema_kwargs)\<close>. The constructor belongs to the serialization library,
  not to this repository; what is modelled of it is what \<open>compute_schema\<close> relies on
  (its comments: ``make sure id field is in only parameter unless marshmallow will raise an
  Exception''). The constructor copies the declared fields of the class, keeps
  \<open>include_data\<close> and \<open>many\<close> (\<open>False\<close> when not passed), and stores \<open>only\<close> as
  a set (\<open>None\<close> when not passed). The fields of the instance are the declared fields
  that \<open>only\<close> names, all of them without \<open>only\<close>. The constructor raises
  \<open>ValueError\<close> when a non-empty name of \<open>include_data\<close> is not a relationship among
  these fields, when the class has no \<open>type_\<close> (an empty \<open>cls_type\<close> here), and when
  \<open>id\<close> is not among these fields. How a name in \<open>only\<close> that the class does not
  declare is treated differs between versions of the library; here it selects nothing.
\<close>

definition selected_fields :: "schema_cls \<Rightarrow> string list option \<Rightarrow> (string \<times> schema_field) list" where
  "selected_fields cls only_arg =
     (case only_arg of
        None \<Rightarrow> cls_declared_fields cls
      | Some t \<Rightarrow> filter (\<lambda>(n, f). n \<in> set t) (cls_declared_fields cls))"

fun is_relationship :: "schema_field option \<Rightarrow> bool" where
  "is_relationship (Some (Relationship r)) = True"
| "is_relationship other = False"

definition new_schema :: "schema_cls \<Rightarrow> kwargs \<Rightarrow> error + schema" where
  "new_schema cls kw =
     (let include_data_arg = (case kw_include_data kw of None \<Rightarrow> [] | Some t \<Rightarrow> t);
          fs = selected_fields cls (kw_only kw)
      in if list_ex (\<lambda>rel. rel \<noteq> [] \<and> \<not> is_relationship (map_of fs rel)) include_data_arg
         then Inl ValueError
         else if cls_type cls = [] then Inl ValueError
         else if map_of fs ''id'' = None then Inl ValueError
         else Inr (Schema cls (map_option (\<lambda>t. OnlySet (set t)) (kw_only kw))
                     include_data_arg
                     (case kw_many kw of None \<Rightarrow> False | Some b \<Rightarrow> b)
                     (cls_declared_fields cls)))"

type_synonym related_includes = "(string \<times> string list) list"

definition first_segment :: "string \<Rightarrow> string" where
  "first_segment include_path = (case split (CHR ''.'') include_path of [] \<Rightarrow> [] | w # ws \<Rightarrow> w)"

definition rest_segments :: "string \<Rightarrow> string" where
  "rest_segments include_path = join ''.'' (tl (split (CHR ''.'') include_path))"

text \<open>
  The first loop of \<open>compute_schema\<close>, over the include paths: it validates the first
  segment, appends it to \<open>schema_kwargs['include_data']\<close> and collects the rest of the
  path under that field in \<open>related_includes\<close>. The dictionary \<open>schema_kwargs\<close> is the
  caller's object, so it is returned as it stands also when the loop raises.
\<close>

fun collect_includes ::
  "schema_cls \<Rightarrow> string list \<Rightarrow> kwargs \<Rightarrow> related_includes \<Rightarrow> (error + related_includes) \<times> kwargs"
where
  "collect_includes cls [] kw ri = (Inr ri, kw)"
| "collect_includes cls (include_path # rest) kw ri =
     (let field = first_segment include_path in
      case map_of (cls_declared_fields cls) field of
        None \<Rightarrow> (Inl (InvalidInclude (cls_name cls @ '' has no attribute '' @ field)), kw)
      | Some Attribute \<Rightarrow>
          (Inl (InvalidInclude (field @ '' is not a relationship attribute of '' @ cls_name cls)), kw)
      | Some (Relationship rs) \<Rightarrow>
          (case kw_include_data kw of
             None \<Rightarrow> (Inl KeyError, kw)
           | Some t \<Rightarrow>
               (let kw' = kw\<lparr>kw_include_data := Some (t @ [field])\<rparr>;
                    ri' = (if map_of ri field = None then AList.update field [] ri else ri);
                    ri'' = (if CHR ''.'' \<in> set include_path
                            then AList.update field
                                   ((case map_of ri' field of None \<Rightarrow> [] | Some l \<Rightarrow> l)
                                      @ [rest_segments include_path]) ri'
                            else ri')
                in collect_includes cls rest kw' ri'')))"

text \<open>``make sure id field is in only parameter'': the entry \<open>only\<close> of the dictionary
  gets \<open>id\<close> appended.\<close>

definition ensure_id :: "kwargs \<Rightarrow> kwargs" where
  "ensure_id kw =
     (case kw_only kw of
        None \<Rightarrow> kw
      | Some t \<Rightarrow> if ''id'' \<notin> set t then kw\<lparr>kw_only := Some (t @ [''id''])\<rparr> else kw)"

text \<open>
  ``manage sparse fieldsets''. \<open>qs.fields\<close> is evaluated here for the first time and may
  raise. \<open>if schema.only\<close> holds for a non-empty set or tuple. \<open>tmp_only\<close> is a Python
  set; \<open>tuple(tmp_only)\<close> lists it in the iteration order of the set, which the language
  leaves open: the order is the parameter \<open>tuple_of\<close>.
\<close>

definition sparse_fieldsets ::
  "(string set \<Rightarrow> string list) \<Rightarrow> querystring \<Rightarrow> schema \<Rightarrow> error + schema"
where
  "sparse_fieldsets tuple_of qs s =
     (case fields_qs qs of
        Inl e \<Rightarrow> Inl e
      | Inr fs \<Rightarrow>
          (case map_of fs (cls_type (schema_class s)) of
             None \<Rightarrow> Inr s
           | Some requested \<Rightarrow>
               (let tmp_only = set (map fst (declared_fields s)) \<inter> set requested;
                    tmp_only' = (case only s of
                                   None \<Rightarrow> tmp_only
                                 | Some v \<Rightarrow> if only_names v \<noteq> {}
                                             then tmp_only \<inter> only_names v else tmp_only);
                    only1 = tuple_of tmp_only';
                    only2 = (if ''id'' \<notin> set only1 then only1 @ [''id''] else only1)
                in Inr (Schema (schema_class s) (Some (OnlyTuple only2)) (include_data s) (many s)
                          (declared_fields s)))))"

text \<open>The class and the keyword arguments of the related schema, from what the
  relationship field holds; \<open>class_registry.get_class\<close> raises for an unknown name.\<close>

fun related_schema_cls ::
  "(string \<rightharpoonup> schema_cls) \<Rightarrow> rel_schema \<Rightarrow> error + (schema_cls \<times> kwargs)"
where
  "related_schema_cls registry (SchemaInstance s) =
     Inr (schema_class s, empty_kwargs\<lparr>kw_many := Some (many s)\<rparr>)"
| "related_schema_cls registry (ClassName n) =
     (case registry n of None \<Rightarrow> Inl RegistryError | Some c \<Rightarrow> Inr (c, empty_kwargs))"
| "related_schema_cls registry (SchemaClass c) = Inr (c, empty_kwargs)"

text \<open>\<open>relation_field.__dict__['_Relationship__schema'] = related_schema\<close>, on the
  instance's copy of the field.\<close>

definition set_related_schema :: "string \<Rightarrow> schema \<Rightarrow> schema \<Rightarrow> schema" where
  "set_related_schema fname related_schema s =
     Schema (schema_class s) (only s) (include_data s) (many s)
       (AList.update fname (Relationship (SchemaInstance related_schema)) (declared_fields s))"


text \<open>Two weights bound the recursion of \<open>compute_schema\<close>: every path handed to a
  recursive call is a proper suffix of a path of the caller, and \<open>related_includes\<close>
  never weighs more than the include paths it was collected from.\<close>

definition paths_weight :: "string list \<Rightarrow> nat" where
  "paths_weight incl = sum_list (map (\<lambda>p. Suc (length p)) incl)"

definition related_weight :: "related_includes \<Rightarrow> nat" where
  "related_weight ri = sum_list (map (\<lambda>(f, l). Suc (paths_weight l)) ri)"

lemma split_not_Nil: "split c s \<noteq> []"
  by (induction s) (auto split: list.splits)

lemma join_Cons: "ws \<noteq> [] \<Longrightarrow> join sep (w # ws) = w @ sep @ join sep ws"
  by (cases ws) simp_all

lemma join_split: "join [c] (split c s) = s"
proof (induction s)
  case Nil
  show ?case by simp
next
  case (Cons x xs)
  obtain w ws where sp: "split c xs = w # ws"
    using split_not_Nil [of c xs] by (cases "split c xs") auto
  show ?case
  proof (cases "x = c")
    case True
    then show ?thesis using Cons split_not_Nil [of c xs] by (simp add: join_Cons)
  next
    case False
    have "join [c] ((x # w) # ws) = x # join [c] (w # ws)"
      by (cases ws) simp_all
    then show ?thesis using False Cons sp by simp
  qed
qed

lemma length_rest_segments: "CHR ''.'' \<in> set p \<Longrightarrow> length (rest_segments p) < length p"
proof (induction p)
  case Nil
  then show ?case by simp
next
  case (Cons x xs)
  show ?case
  proof (cases "x = CHR ''.''")
    case True
    have "rest_segments (x # xs) = join ''.'' (split (CHR ''.'') xs)"
      using True by (simp add: rest_segments_def)
    then show ?thesis using join_split [of "CHR ''.''" xs] by simp
  next
    case False
    obtain w ws where sp: "split (CHR ''.'') xs = w # ws"
      using split_not_Nil [of "CHR ''.''" xs] by (cases "split (CHR ''.'') xs") auto
    have "rest_segments (x # xs) = rest_segments xs"
      using False sp by (simp add: rest_segments_def)
    moreover have "CHR ''.'' \<in> set xs" using Cons.prems False by simp
    ultimately show ?thesis using Cons.IH by simp
  qed
qed

lemma related_weight_update_new:
  "map_of ri k = None \<Longrightarrow> related_weight (AList.update k v ri) = related_weight ri + Suc (paths_weight v)"
  by (induction ri) (auto simp: related_weight_def split: if_splits)

lemma related_weight_update_append:
  "map_of ri k = Some l \<Longrightarrow>
   related_weight (AList.update k (l @ [q]) ri) = related_weight ri + Suc (length q)"
  by (induction ri) (auto simp: related_weight_def paths_weight_def split: if_splits)

lemma related_weight_lookup:
  "map_of ri k = Some l \<Longrightarrow> Suc (paths_weight l) \<le> related_weight ri"
  by (induction ri) (auto simp: related_weight_def split: if_splits)

lemma collect_includes_weight:
  "collect_includes cls incl kw ri = (Inr ri', kw') \<Longrightarrow>
   related_weight ri' \<le> related_weight ri + paths_weight incl"
proof (induction incl arbitrary: kw ri)
  case Nil
  then show ?case by simp
next
  case (Cons p ps)
  let ?f = "first_segment p"
  from Cons.prems obtain rs t where
    rel: "map_of (cls_declared_fields cls) ?f = Some (Relationship rs)" and
    inc: "kw_include_data kw = Some t"
    by (auto simp: Let_def split: option.splits schema_field.splits)
  define ri1 where "ri1 = (if map_of ri ?f = None then AList.update ?f [] ri else ri)"
  define ri2 where "ri2 = (if CHR ''.'' \<in> set p
      then AList.update ?f ((case map_of ri1 ?f of None \<Rightarrow> [] | Some l \<Rightarrow> l) @ [rest_segments p]) ri1
      else ri1)"
  have step: "collect_includes cls ps (kw\<lparr>kw_include_data := Some (t @ [?f])\<rparr>) ri2 = (Inr ri', kw')"
    using Cons.prems
    by (simp only: collect_includes.simps Let_def rel inc option.case schema_field.case
          ri1_def [symmetric] ri2_def [symmetric])
  have w1: "related_weight ri1 \<le> related_weight ri + 1"
    by (simp add: ri1_def related_weight_update_new paths_weight_def)
  have present: "map_of ri1 ?f \<noteq> None"
    by (simp add: ri1_def update_conv')
  have w2: "related_weight ri2 \<le> related_weight ri1 + length p"
  proof (cases "CHR ''.'' \<in> set p")
    case True
    from present obtain l where l: "map_of ri1 ?f = Some l" by auto
    show ?thesis
      using True l length_rest_segments [OF True]
      by (simp add: ri2_def related_weight_update_append)
  next
    case False
    then show ?thesis by (simp add: ri2_def)
  qed
  have "related_weight ri' \<le> related_weight ri2 + paths_weight ps"
    using Cons.IH [OF step] .
  then show ?case using w1 w2 by (simp add: paths_weight_def)
qed

text \<open>
  \<open>compute_schema(schema_cls, default_kwargs, qs, include)\<close>. It returns the schema
  or the exception raised, together with the dictionary \<open>default_kwargs\<close> as the call
  leaves it: \<open>schema_kwargs = default_kwargs\<close> binds a second name to the caller's
  dictionary, and every assignment to \<open>schema_kwargs[...]\<close> writes into it. An include
  list of \<open>None\<close> is the empty list (both are falsy, and nothing else reads it).
  \<open>compound_documents\<close> is the last loop, ``manage compound documents'', with the
  schema instance whose relationship fields it replaces; the recursive call gets a fresh
  dictionary, which nobody reads afterwards.
\<close>

function (sequential) compute_schema ::
  "(string set \<Rightarrow> string list) \<Rightarrow> (string \<rightharpoonup> schema_cls) \<Rightarrow> schema_cls \<Rightarrow> kwargs \<Rightarrow> querystring
     \<Rightarrow> string list \<Rightarrow> (error + schema) \<times> kwargs"
and compound_documents ::
  "(string set \<Rightarrow> string list) \<Rightarrow> (string \<rightharpoonup> schema_cls) \<Rightarrow> querystring \<Rightarrow> related_includes
     \<Rightarrow> string list \<Rightarrow> schema \<Rightarrow> error + schema"
where
  "compute_schema tuple_of registry cls default_kwargs qs incl =
     (case collect_includes cls incl (default_kwargs\<lparr>kw_include_data := Some []\<rparr>) [] of
        (Inl e, schema_kwargs) \<Rightarrow> (Inl e, schema_kwargs)
      | (Inr related_includes, schema_kwargs) \<Rightarrow>
          (case new_schema cls (ensure_id schema_kwargs) of
             Inl e \<Rightarrow> (Inl e, ensure_id schema_kwargs)
           | Inr s0 \<Rightarrow>
               (case sparse_fieldsets tuple_of qs s0 of
                  Inl e \<Rightarrow> (Inl e, ensure_id schema_kwargs)
                | Inr s \<Rightarrow>
                    (compound_documents tuple_of registry qs related_includes incl s,
                     ensure_id schema_kwargs))))"
| "compound_documents tuple_of registry qs related_includes [] s = Inr s"
| "compound_documents tuple_of registry qs related_includes (include_path # rest) s =
     (case map_of (declared_fields s) (first_segment include_path) of
        None \<Rightarrow> Inl KeyError
      | Some Attribute \<Rightarrow> Inl KeyError
      | Some (Relationship rs) \<Rightarrow>
          (case related_schema_cls registry rs of
             Inl e \<Rightarrow> Inl e
           | Inr (rcls, related_schema_kwargs) \<Rightarrow>
               (case map_of related_includes (first_segment include_path) of
                  None \<Rightarrow> Inl KeyError
                | Some sub_includes \<Rightarrow>
                    (case fst (compute_schema tuple_of registry rcls related_schema_kwargs qs
                                 sub_includes) of
                       Inl e \<Rightarrow> Inl e
                     | Inr related_schema \<Rightarrow>
                         compound_documents tuple_of registry qs related_includes rest
                           (set_related_schema (first_segment include_path) related_schema s)))))"
  by pat_completeness auto
termination
proof (relation "inv_image (less_than <*lex*> less_than)
     (\<lambda>x. case x of
        Inl (t, reg, cls, kw, qs, incl) \<Rightarrow> (2 * paths_weight incl + 1, 0)
      | Inr (t, reg, qs, ri, ps, s) \<Rightarrow> (2 * related_weight ri, length ps))", goal_cases)
  case 1
  show ?case by (intro wf_inv_image wf_lex_prod wf_less_than)
next
  case (2 tuple_of registry cls default_kwargs qs incl x y b ba)
  then have "collect_includes cls incl (default_kwargs\<lparr>kw_include_data := Some []\<rparr>) [] = (Inr b, y)"
    by simp
  from collect_includes_weight [OF this] show ?case
    by (simp add: related_weight_def)
next
  case (3 tuple_of registry qs related_includes include_path rest s x2 x2a b x y x2b)
  then have "map_of related_includes (first_segment include_path) = Some x2b"
    by simp
  from related_weight_lookup [OF this] show ?case
    by simp
next
  case 4
  show ?case by simp
qed

section \<open>Notions used in the statements\<close>

text \<open>What is assumed of \<open>tuple(tmp_only)\<close> where a statement needs it: the tuple holds
  each element of the (finite) set once. Nothing is assumed about the order.\<close>

definition set_iteration_order :: "(string set \<Rightarrow> string list) \<Rightarrow> bool" where
  "set_iteration_order tuple_of = (\<forall>X. finite X \<longrightarrow> set (tuple_of X) = X \<and> distinct (tuple_of X))"

text \<open>The set \<open>tmp_only\<close> that \<open>compute_schema\<close> hands to \<open>tuple\<close>.\<close>

definition requested_set :: "schema_cls \<Rightarrow> kwargs \<Rightarrow> string list \<Rightarrow> string set" where
  "requested_set cls kw requested =
     set (map fst (cls_declared_fields cls)) \<inter> set requested
       \<inter> (case kw_only kw of None \<Rightarrow> UNIV | Some t \<Rightarrow> insert ''id'' (set t))"

section \<open>Bracket keys\<close>

text \<open>The exception class \<open>MalformedQuery\<close> of the specification is \<open>BadRequest\<close>
  in the code. On keys of the form \<open>name[key]\<close> the extraction gives the list of the
  comma-separated parts, or the string itself when it holds no comma, and a key without
  \<open>[\<close> or without \<open>]\<close> is reported under its own name.\<close>

lemma get_key_values_examples:
  "get_key_values ''filter'' [(''filter[key]'', ''v1,v2'')] = Inr [(''key'', Multi [''v1'', ''v2''])]
   \<and> get_key_values ''filter'' [(''filter[key]'', ''v1'')] = Inr [(''key'', Scalar ''v1'')]
   \<and> get_key_values ''filter'' [(''filter[key]'', [])] = Inr [(''key'', Scalar [])]
   \<and> get_key_values ''filter'' [(''filterkey'', ''v1'')] = Inl (BadRequest ''Parse error'' ''filterkey'')
   \<and> get_key_values ''filter'' [(''filter[key'', ''v1'')] = Inl (BadRequest ''Parse error'' ''filter[key'')"
  by code_simp

text \<open>When the first \<open>]\<close> of a key does not come after its first \<open>[\<close>, the slice
  taken as sub-key is empty.\<close>

lemma slice_closing_first:
  "j \<le> Suc i \<Longrightarrow> slice (Suc i) j key = []"
  by (simp add: slice_def)

text \<open>
  C6: the sub-key of a key is what stands between its first \<open>[\<close> and the first
  \<open>]\<close> after it, and a key without such a pair is rejected with its own name as
  source. \<open>_get_key_values\<close> looks for the first \<open>]\<close> of the whole key: where that
  one comes before the first \<open>[\<close> the slice is empty, so \<open>page]x[size]\<close> yields an
  empty sub-key instead of \<open>size\<close>, and \<open>page]x[size\<close>, which has no pair, is
  accepted with an empty sub-key too.
\<close>

theorem get_key_values_first_closing_bracket:
  "get_key_values ''page'' [(''page]x[size]'', ''1'')] = Inr [([], Scalar ''1'')]
   \<and> get_key_values ''page'' [(''page]x[size'', ''1'')] = Inr [([], Scalar ''1'')]"
  by code_simp

subsection \<open>Keys that only share the prefix\<close>

lemma get_key_values_loop_keeps:
  "get_key_values_loop name qs acc = Inr result \<Longrightarrow> fst ` set acc \<subseteq> fst ` set result"
proof (induction qs arbitrary: acc)
  case Nil
  then show ?case by simp
next
  case (Cons e es)
  obtain key val where e: "e = (key, val)" by (cases e)
  show ?case
  proof (cases "prefix name key")
    case False
    then show ?thesis using Cons e by simp
  next
    case True
    with Cons.prems e obtain i j where
      ij: "index (CHR ''['') key = Some i" "index (CHR '']'') key = Some j"
      by (auto split: option.splits)
    define v where "v = (if CHR '','' \<in> set val then Multi (split (CHR '','') val) else Scalar val)"
    have "get_key_values_loop name es (AList.update (slice (i + 1) j key) v acc) = Inr result"
      using Cons.prems e True ij by (simp add: Let_def v_def)
    from Cons.IH [OF this] show ?thesis by (auto simp: dom_update)
  qed
qed

lemma get_key_values_loop_extracts:
  "get_key_values_loop name qs acc = Inr result \<Longrightarrow> (key, val) \<in> set qs \<Longrightarrow> prefix name key \<Longrightarrow>
   \<exists>i j. index (CHR ''['') key = Some i \<and> index (CHR '']'') key = Some j
     \<and> slice (Suc i) j key \<in> fst ` set result"
proof (induction qs arbitrary: acc)
  case Nil
  then show ?case by simp
next
  case (Cons e es)
  obtain key' val' where e: "e = (key', val')" by (cases e)
  show ?case
  proof (cases "prefix name key'")
    case False
    then have "get_key_values_loop name es acc = Inr result" using Cons.prems(1) e by simp
    moreover have "(key, val) \<in> set es" using Cons.prems(2,3) e False by auto
    ultimately show ?thesis using Cons.IH Cons.prems(3) by blast
  next
    case True
    with Cons.prems(1) e obtain i j where
      ij: "index (CHR ''['') key' = Some i" "index (CHR '']'') key' = Some j"
      by (auto split: option.splits)
    define v where "v = (if CHR '','' \<in> set val' then Multi (split (CHR '','') val') else Scalar val')"
    have step: "get_key_values_loop name es (AList.update (slice (i + 1) j key') v acc) = Inr result"
      using Cons.prems(1) e True ij by (simp add: Let_def v_def)
    show ?thesis
    proof (cases "(key, val) = e")
      case True
      have "slice (Suc i) j key' \<in> fst ` set (AList.update (slice (i + 1) j key') v acc)"
        by (simp add: dom_update)
      then have "slice (Suc i) j key' \<in> fst ` set result"
        using get_key_values_loop_keeps [OF step] by blast
      then show ?thesis using True e ij by auto
    next
      case False
      then have "(key, val) \<in> set es" using Cons.prems(2) by auto
      then show ?thesis using Cons.IH [OF step] Cons.prems(3) by blast
    qed
  qed
qed

text \<open>
  C10: bracket-key extraction takes every key that starts with the prefix, whatever follows
  the prefix: each such key of a successful extraction contributes its sub-key to the result.
  With the prefix \<open>page\<close> the key \<open>pages[foo]\<close> is extracted as the sub-key \<open>foo\<close>, which
  the pagination check then refuses.
\<close>

theorem prefix_keys_are_extracted:
  "(get_key_values name qs = Inr result \<and> (key, val) \<in> set qs \<and> prefix name key \<longrightarrow>
      (\<exists>i j. index (CHR ''['') key = Some i \<and> index (CHR '']'') key = Some j
         \<and> slice (Suc i) j key \<in> fst ` set result))
   \<and> get_key_values ''page'' [(''pages[foo]'', ''1'')] = Inr [(''foo'', Scalar ''1'')]
   \<and> pagination cfg [(''pages[foo]'', ''1'')]
        = Inl (BadRequest ''foo is not a valid parameter of pagination'' ''page'')"
proof (intro conjI impI)
  assume "get_key_values name qs = Inr result \<and> (key, val) \<in> set qs \<and> prefix name key"
  then show "\<exists>i j. index (CHR ''['') key = Some i \<and> index (CHR '']'') key = Some j
         \<and> slice (Suc i) j key \<in> fst ` set result"
    using get_key_values_loop_extracts [of name qs "[]" result key val]
    by (simp add: get_key_values_def)
next
  show g: "get_key_values ''page'' [(''pages[foo]'', ''1'')] = Inr [(''foo'', Scalar ''1'')]"
    by code_simp
  show "pagination cfg [(''pages[foo]'', ''1'')]
        = Inl (BadRequest ''foo is not a valid parameter of pagination'' ''page'')"
    by (simp add: pagination_def g)
qed

theorem prefix_keys_are_extracted_witness:
  "get_key_values ''page'' [(''pages[foo]'', ''1'')] = Inr [(''foo'', Scalar ''1'')]
   \<and> (''pages[foo]'', ''1'') \<in> set [(''pages[foo]'', ''1'')]
   \<and> prefix ''page'' ''pages[foo]''
   \<and> (\<exists>i j. index (CHR ''['') ''pages[foo]'' = Some i \<and> index (CHR '']'') ''pages[foo]'' = Some j
         \<and> slice (Suc i) j ''pages[foo]'' \<in> fst ` set [(''foo'', Scalar ''1'')])"
proof -
  have g: "get_key_values ''page'' [(''pages[foo]'', ''1'')] = Inr [(''foo'', Scalar ''1'')]"
    by code_simp
  have p: "prefix ''page'' ''pages[foo]''" by simp
  show ?thesis
    using prefix_keys_are_extracted [of "''page''" "[(''pages[foo]'', ''1'')]"
        "[(''foo'', Scalar ''1'')]" "''pages[foo]''" "''1''"] g p
    by simp
qed

section \<open>Pagination\<close>

text \<open>What the first loop of \<open>pagination\<close> lets through, and how it treats a list that
  starts with entries it lets through.\<close>

lemma check_page_entry:
  "check_page result = Inr u \<Longrightarrow> (k, v) \<in> set result \<Longrightarrow>
   (k = ''number'' \<or> k = ''size'') \<and> (\<exists>s n. v = Scalar s \<and> int_of_str s = Some n)"
proof (induction result)
  case Nil
  then show ?case by simp
next
  case (Cons e es)
  obtain k' v' where e: "e = (k', v')" by (cases e)
  from Cons.prems(1) e have key: "k' = ''number'' \<or> k' = ''size''"
    by (auto split: if_splits)
  from Cons.prems(1) e key obtain s n where v': "v' = Scalar s" "int_of_str s = Some n"
    by (cases v') (auto split: if_splits option.splits)
  from Cons.prems(1) e key v' have rest: "check_page es = Inr u"
    by (auto split: if_splits)
  show ?case
  proof (cases "(k, v) = e")
    case True
    then show ?thesis using e key v' by auto
  next
    case False
    then have "(k, v) \<in> set es" using Cons.prems(2) by auto
    then show ?thesis using Cons.IH rest by blast
  qed
qed

lemma check_page_append:
  "check_page (pre @ rest) = (case check_page pre of Inl e \<Rightarrow> Inl e | Inr u \<Rightarrow> check_page rest)"
proof (induction pre)
  case Nil
  show ?case by simp
next
  case (Cons e es)
  obtain k v where e: "e = (k, v)" by (cases e)
  show ?case using Cons.IH e
    by (cases v) (auto split: sum.splits error.splits option.splits)
qed

lemma size_entry_parses:
  assumes "check_page result = Inr u" and "map_of result ''size'' = Some v"
  shows "\<exists>s n. v = Scalar s \<and> int_of_str s = Some n"
  using check_page_entry [OF assms(1) map_of_SomeD [OF assms(2)]] by blast

text \<open>Where \<open>pagination\<close> succeeds, and where its first loop stops.\<close>

lemma pagination_success:
  assumes "pagination cfg qs = Inr result"
  shows "get_key_values ''page'' qs = Inr result \<and> check_page result = Inr ()"
  using assms by (auto simp: pagination_def split: sum.splits)

lemma pagination_unknown_key:
  assumes "get_key_values ''page'' qs = Inr (pre @ (k, v) # post)"
    and "check_page pre = Inr ()" and "k \<noteq> ''number''" and "k \<noteq> ''size''"
  shows "pagination cfg qs =
    Inl (BadRequest (k @ '' is not a valid parameter of pagination'') ''page'')"
  using assms by (simp add: pagination_def check_page_append)

lemma pagination_bad_value:
  assumes "get_key_values ''page'' qs = Inr (pre @ (k, Scalar s) # post)"
    and "check_page pre = Inr ()" and "k = ''number'' \<or> k = ''size''"
    and "int_of_str s = None"
  shows "pagination cfg qs = Inl (BadRequest ''Parse error'' (''page['' @ k @ '']''))"
  using assms by (auto simp: pagination_def check_page_append)

text \<open>
  C2, as the specification states it: the values of the parsed pagination are non-negative
  integers. They are the raw strings, and a negative one is accepted: \<open>page[size]=-5\<close>
  parses to \<open>{'size': '-5'}\<close>, whose integer is \<open>-5\<close>.
\<close>

theorem pagination_negative_size_counterexample:
  "pagination \<lparr>ALLOW_DISABLE_PAGINATION = None, MAX_PAGE_SIZE = None, MAX_INCLUDE_DEPTH = None\<rparr>
     [(''page[size]'', ''-5'')] = Inr [(''size'', Scalar ''-5'')]
   \<and> int_of_value (Scalar ''-5'') = Inr (- 5)"
  by code_simp

text \<open>
  C2, amended: a successful pagination parse is the dictionary of the extracted \<open>page\<close>
  sub-keys with their raw strings; its keys are among \<open>number\<close> and \<open>size\<close>, and each
  value is a single string that \<open>int\<close> accepts, of either sign. The first entry, in
  parameter order, whose sub-key is neither \<open>number\<close> nor \<open>size\<close> fails with
  \<open>BadRequest\<close> naming \<open>page\<close>, and the first entry whose string does not parse as an
  integer fails with \<open>BadRequest\<close> naming \<open>page[key]\<close>.
\<close>

theorem pagination_keys_and_values:
  "(pagination cfg qs = Inr result \<longrightarrow>
      get_key_values ''page'' qs = Inr result
      \<and> (\<forall>(k, v) \<in> set result.
            (k = ''number'' \<or> k = ''size'') \<and> (\<exists>s n. v = Scalar s \<and> int_of_str s = Some n)))
   \<and> (get_key_values ''page'' qs = Inr (pre @ (key, value) # post) \<and> check_page pre = Inr ()
        \<and> key \<noteq> ''number'' \<and> key \<noteq> ''size'' \<longrightarrow>
      pagination cfg qs =
        Inl (BadRequest (key @ '' is not a valid parameter of pagination'') ''page''))
   \<and> (get_key_values ''page'' qs = Inr (pre @ (key, Scalar s) # post) \<and> check_page pre = Inr ()
        \<and> (key = ''number'' \<or> key = ''size'') \<and> int_of_str s = None \<longrightarrow>
      pagination cfg qs = Inl (BadRequest ''Parse error'' (''page['' @ key @ '']'')))"
proof (intro conjI impI)
  assume ok: "pagination cfg qs = Inr result"
  show "get_key_values ''page'' qs = Inr result"
    using pagination_success [OF ok] by simp
  show "\<forall>(k, v) \<in> set result.
          (k = ''number'' \<or> k = ''size'') \<and> (\<exists>s n. v = Scalar s \<and> int_of_str s = Some n)"
    using pagination_success [OF ok] check_page_entry [of result "()"] by blast
next
  assume "get_key_values ''page'' qs = Inr (pre @ (key, value) # post) \<and> check_page pre = Inr ()
        \<and> key \<noteq> ''number'' \<and> key \<noteq> ''size''"
  then show "pagination cfg qs =
        Inl (BadRequest (key @ '' is not a valid parameter of pagination'') ''page'')"
    using pagination_unknown_key by blast
next
  assume "get_key_values ''page'' qs = Inr (pre @ (key, Scalar s) # post) \<and> check_page pre = Inr ()
        \<and> (key = ''number'' \<or> key = ''size'') \<and> int_of_str s = None"
  then show "pagination cfg qs = Inl (BadRequest ''Parse error'' (''page['' @ key @ '']''))"
    using pagination_bad_value by blast
qed

theorem pagination_keys_and_values_witness:
  "pagination \<lparr>ALLOW_DISABLE_PAGINATION = None, MAX_PAGE_SIZE = None, MAX_INCLUDE_DEPTH = None\<rparr>
     [(''page[number]'', ''2''), (''page[size]'', ''-5'')]
     = Inr [(''number'', Scalar ''2''), (''size'', Scalar ''-5'')]
   \<and> get_key_values ''page'' [(''page[number]'', ''2''), (''page[size]'', ''-5'')]
     = Inr [(''number'', Scalar ''2''), (''size'', Scalar ''-5'')]
   \<and> (\<exists>n. int_of_str ''2'' = Some n) \<and> (\<exists>n. int_of_str ''-5'' = Some n)
   \<and> get_key_values ''page'' [(''page[foo]'', ''1'')] = Inr ([] @ (''foo'', Scalar ''1'') # [])
   \<and> check_page [] = Inr ()
   \<and> pagination \<lparr>ALLOW_DISABLE_PAGINATION = None, MAX_PAGE_SIZE = None, MAX_INCLUDE_DEPTH = None\<rparr>
        [(''page[foo]'', ''1'')]
     = Inl (BadRequest ''foo is not a valid parameter of pagination'' ''page'')
   \<and> get_key_values ''page'' [(''page[size]'', ''abc'')] = Inr ([] @ (''size'', Scalar ''abc'') # [])
   \<and> int_of_str ''abc'' = None
   \<and> pagination \<lparr>ALLOW_DISABLE_PAGINATION = None, MAX_PAGE_SIZE = None, MAX_INCLUDE_DEPTH = None\<rparr>
        [(''page[size]'', ''abc'')]
     = Inl (BadRequest ''Parse error'' ''page[size]'')"
proof -
  let ?cfg = "\<lparr>ALLOW_DISABLE_PAGINATION = None, MAX_PAGE_SIZE = None, MAX_INCLUDE_DEPTH = None\<rparr>"
  have p1: "pagination ?cfg [(''page[number]'', ''2''), (''page[size]'', ''-5'')]
     = Inr [(''number'', Scalar ''2''), (''size'', Scalar ''-5'')]"
    by code_simp
  have g2: "get_key_values ''page'' [(''page[foo]'', ''1'')] = Inr ([] @ (''foo'', Scalar ''1'') # [])"
    by code_simp
  have g3: "get_key_values ''page'' [(''page[size]'', ''abc'')] = Inr ([] @ (''size'', Scalar ''abc'') # [])"
    by code_simp
  have i3: "int_of_str ''abc'' = None" by code_simp
  have c: "check_page [] = Inr ()" by simp
  note t1 = pagination_keys_and_values [of ?cfg "[(''page[number]'', ''2''), (''page[size]'', ''-5'')]"
      "[(''number'', Scalar ''2''), (''size'', Scalar ''-5'')]" "[]" "''foo''" "Scalar ''1''" "[]" "''abc''"]
  note t2 = pagination_keys_and_values [of ?cfg "[(''page[foo]'', ''1'')]"
      "[]" "[]" "''foo''" "Scalar ''1''" "[]" "''abc''"]
  note t3 = pagination_keys_and_values [of ?cfg "[(''page[size]'', ''abc'')]"
      "[]" "[]" "''size''" "Scalar ''1''" "[]" "''abc''"]
  have a1: "get_key_values ''page'' [(''page[number]'', ''2''), (''page[size]'', ''-5'')]
     = Inr [(''number'', Scalar ''2''), (''size'', Scalar ''-5'')]
     \<and> (\<exists>n. int_of_str ''2'' = Some n) \<and> (\<exists>n. int_of_str ''-5'' = Some n)"
    using t1 p1 by simp
  have a2: "pagination ?cfg [(''page[foo]'', ''1'')]
     = Inl (BadRequest ''foo is not a valid parameter of pagination'' ''page'')"
    using t2 g2 c by simp
  have a3: "pagination ?cfg [(''page[size]'', ''abc'')] = Inl (BadRequest ''Parse error'' ''page[size]'')"
    using t3 g3 c i3 by simp
  show ?thesis using p1 a1 a2 a3 g2 g3 i3 c by simp
qed

text \<open>
  C7: once the sub-keys and values of \<open>page\<close> have been parsed, the two policies of the
  configuration are enforced, and both report \<open>page[size]\<close>: with
  \<open>ALLOW_DISABLE_PAGINATION\<close> set to \<open>False\<close> a size of zero is refused, and with
  \<open>MAX_PAGE_SIZE\<close> set a size above it is refused; otherwise the parsed dictionary is
  returned. So \<open>page[size]=0\<close> fails when disabling is not allowed and succeeds when it
  is allowed or unset, and with a maximum of 50 \<open>page[size]=51\<close> fails and
  \<open>page[size]=50\<close> succeeds.
\<close>

theorem pagination_policy_checks:
  assumes "get_key_values ''page'' qs = Inr result" and "check_page result = Inr ()"
  shows "pagination cfg qs =
     (if ALLOW_DISABLE_PAGINATION cfg = Some False
         \<and> (\<exists>s. map_of result ''size'' = Some (Scalar s) \<and> int_of_str s = Some 0)
      then Inl (BadRequest ''You are not allowed to disable pagination'' ''page[size]'')
      else if \<exists>m s n. MAX_PAGE_SIZE cfg = Some m \<and> map_of result ''size'' = Some (Scalar s)
                \<and> int_of_str s = Some n \<and> m < n
      then Inl (BadRequest (''Maximum page size is '' @ str_int (the (MAX_PAGE_SIZE cfg)))
                  ''page[size]'')
      else Inr result)"
proof (cases "map_of result ''size''")
  case None
  then show ?thesis using assms
    by (simp add: pagination_def check_disable_def check_max_size_def split: option.splits)
next
  case (Some v)
  from size_entry_parses [OF assms(2) Some] obtain s n where
    v: "v = Scalar s" "int_of_str s = Some n" by blast
  show ?thesis using assms Some v
    by (simp add: pagination_def check_disable_def check_max_size_def split: option.splits)
qed

theorem pagination_policy_checks_witness:
  "get_key_values ''page'' [(''page[size]'', ''0'')] = Inr [(''size'', Scalar ''0'')]
   \<and> check_page [(''size'', Scalar ''0'')] = Inr ()
   \<and> pagination \<lparr>ALLOW_DISABLE_PAGINATION = Some False, MAX_PAGE_SIZE = None, MAX_INCLUDE_DEPTH = None\<rparr>
         [(''page[size]'', ''0'')]
       = Inl (BadRequest ''You are not allowed to disable pagination'' ''page[size]'')
   \<and> pagination \<lparr>ALLOW_DISABLE_PAGINATION = Some True, MAX_PAGE_SIZE = None, MAX_INCLUDE_DEPTH = None\<rparr>
         [(''page[size]'', ''0'')] = Inr [(''size'', Scalar ''0'')]
   \<and> pagination \<lparr>ALLOW_DISABLE_PAGINATION = None, MAX_PAGE_SIZE = None, MAX_INCLUDE_DEPTH = None\<rparr>
         [(''page[size]'', ''0'')] = Inr [(''size'', Scalar ''0'')]
   \<and> pagination \<lparr>ALLOW_DISABLE_PAGINATION = None, MAX_PAGE_SIZE = Some 50, MAX_INCLUDE_DEPTH = None\<rparr>
         [(''page[size]'', ''51'')] = Inl (BadRequest ''Maximum page size is 50'' ''page[size]'')
   \<and> pagination \<lparr>ALLOW_DISABLE_PAGINATION = None, MAX_PAGE_SIZE = Some 50, MAX_INCLUDE_DEPTH = None\<rparr>
         [(''page[size]'', ''50'')] = Inr [(''size'', Scalar ''50'')]"
proof -
  have g0: "get_key_values ''page'' [(''page[size]'', ''0'')] = Inr [(''size'', Scalar ''0'')]"
    by code_simp
  have c0: "check_page [(''size'', Scalar ''0'')] = Inr ()"
    by code_simp
  have g51: "get_key_values ''page'' [(''page[size]'', ''51'')] = Inr [(''size'', Scalar ''51'')]"
    by code_simp
  have c51: "check_page [(''size'', Scalar ''51'')] = Inr ()"
    by code_simp
  have g50: "get_key_values ''page'' [(''page[size]'', ''50'')] = Inr [(''size'', Scalar ''50'')]"
    by code_simp
  have c50: "check_page [(''size'', Scalar ''50'')] = Inr ()"
    by code_simp
  have i0: "int_of_str ''0'' = Some 0" by code_simp
  have i51: "int_of_str ''51'' = Some 51" by code_simp
  have i50: "int_of_str ''50'' = Some 50" by code_simp
  have s50: "str_int 50 = ''50''" by code_simp
  show ?thesis
    using pagination_policy_checks [OF g0 c0] pagination_policy_checks [OF g51 c51]
      pagination_policy_checks [OF g50 c50]
    by (simp add: g0 c0 i0 i51 i50 s50)
qed

section \<open>Sorting\<close>

text \<open>On tokens whose field name holds no hyphen, \<open>sorting\<close> gives the direction and
  the name; an absent or empty parameter gives the empty list. But no field that it returns
  holds a hyphen, wherever the hyphen stood in the token.\<close>

lemma replace_empty_absent: "c \<notin> set w \<Longrightarrow> replace_empty c w = w"
  by (induction w) (auto simp: replace_empty_def)

lemma sort_entry_of_descending:
  "CHR ''-'' \<notin> set w \<Longrightarrow> sort_entry_of (CHR ''-'' # w) = \<lparr>field = w, order = Desc\<rparr>"
  using replace_empty_absent [of "CHR ''-''" w] by (simp add: sort_entry_of_def replace_empty_def)

lemma sort_entry_of_ascending:
  "CHR ''-'' \<notin> set w \<Longrightarrow> sort_entry_of w = \<lparr>field = w, order = Asc\<rparr>"
  using replace_empty_absent [of "CHR ''-''" w] by (cases w) (auto simp: sort_entry_of_def)

lemma sorting_examples:
  "sorting [(''sort'', ''-created_at,name'')] =
     [\<lparr>field = ''created_at'', order = Desc\<rparr>, \<lparr>field = ''name'', order = Asc\<rparr>]
   \<and> sorting [] = [] \<and> sorting [(''sort'', [])] = []"
  by code_simp

lemma sorting_field_without_hyphen:
  "e \<in> set (sorting qs) \<Longrightarrow> CHR ''-'' \<notin> set (field e)"
  by (auto simp: sorting_def sort_entry_of_def replace_empty_def split: option.splits if_splits)

text \<open>
  C5: a token of \<open>sort\<close> with a leading \<open>-\<close> is descending and loses only that
  character, any other token is ascending with its name unchanged. \<open>sorting\<close> removes
  every \<open>-\<close> of the token: \<open>-created-at\<close> becomes the field \<open>createdat\<close> and the
  ascending \<open>first-name\<close> becomes \<open>firstname\<close>.
\<close>

theorem sorting_removes_every_hyphen:
  "sorting [(''sort'', ''-created-at,first-name'')] =
     [\<lparr>field = ''createdat'', order = Desc\<rparr>, \<lparr>field = ''firstname'', order = Asc\<rparr>]"
  by code_simp

section \<open>The include parameter\<close>

text \<open>The examples of the specification hold: \<open>author.publisher\<close> is refused with a
  maximum of 1 and returned with a maximum of 2 or none. But the depth check sees one
  character at a time, so it fires only for a maximum below 1 (on any non-empty parameter)
  or below 2 (on a parameter that holds a dot).\<close>

lemma include_qs_examples:
  "include_qs \<lparr>ALLOW_DISABLE_PAGINATION = None, MAX_PAGE_SIZE = None, MAX_INCLUDE_DEPTH = Some 1\<rparr>
     [(''include'', ''author.publisher'')]
     = Inl (InvalidInclude ''You can't use include through more than 1 relationships'')
   \<and> include_qs \<lparr>ALLOW_DISABLE_PAGINATION = None, MAX_PAGE_SIZE = None, MAX_INCLUDE_DEPTH = Some 2\<rparr>
     [(''include'', ''author.publisher'')] = Inr [''author.publisher'']
   \<and> include_qs \<lparr>ALLOW_DISABLE_PAGINATION = None, MAX_PAGE_SIZE = None, MAX_INCLUDE_DEPTH = None\<rparr>
     [(''include'', ''author.publisher'')] = Inr [''author.publisher'']
   \<and> include_qs \<lparr>ALLOW_DISABLE_PAGINATION = None, MAX_PAGE_SIZE = None, MAX_INCLUDE_DEPTH = Some 1\<rparr>
     [] = Inr []"
  by code_simp

lemma too_deep_single: "too_deep d [ch] \<longleftrightarrow> d < 1 \<or> (d < 2 \<and> ch = CHR ''.'')"
  by (auto simp: too_deep_def)

lemma include_qs_fails_iff:
  "(\<exists>e. include_qs cfg qs = Inl e) \<longleftrightarrow>
   (\<exists>d s. MAX_INCLUDE_DEPTH cfg = Some d \<and> map_of qs ''include'' = Some s \<and> s \<noteq> []
      \<and> (d < 1 \<or> (d < 2 \<and> CHR ''.'' \<in> set s)))"
proof (cases "MAX_INCLUDE_DEPTH cfg")
  case None
  then show ?thesis by (simp add: include_qs_def Let_def)
next
  case (Some d)
  show ?thesis
  proof (cases "map_of qs ''include''")
    case None
    then show ?thesis using Some by (simp add: include_qs_def Let_def)
  next
    case s: (Some s)
    have "list_ex (\<lambda>ch. too_deep d [ch]) s \<longleftrightarrow> s \<noteq> [] \<and> (d < 1 \<or> (d < 2 \<and> CHR ''.'' \<in> set s))"
      by (cases s) (auto simp: list_ex_iff too_deep_single)
    then show ?thesis using Some s by (auto simp: include_qs_def Let_def)
  qed
qed

text \<open>
  C1: with \<open>MAX_INCLUDE_DEPTH\<close> configured, parsing \<open>include\<close> fails with
  \<open>InvalidInclude\<close> whenever a path has more segments than the maximum. The loop of
  \<open>include\<close> runs over the characters of the raw string, not over its paths, so the
  most it ever counts is the two segments of a lone dot: with a maximum of 2 the path
  \<open>a.b.c\<close>, of three segments, is returned.
\<close>

theorem include_depth_check_per_character:
  "include_qs \<lparr>ALLOW_DISABLE_PAGINATION = None, MAX_PAGE_SIZE = None, MAX_INCLUDE_DEPTH = Some 2\<rparr>
     [(''include'', ''a.b.c'')] = Inr [''a.b.c'']
   \<and> too_deep 2 ''a.b.c''"
  by code_simp

section \<open>Projection: validation of the include paths\<close>

lemma collect_includes_invalid:
  assumes "kw_include_data kw \<noteq> None" and "p \<in> set incl"
    and "map_of (cls_declared_fields cls) (first_segment p) = None
       \<or> map_of (cls_declared_fields cls) (first_segment p) = Some Attribute"
  shows "\<exists>msg. fst (collect_includes cls incl kw ri) = Inl (InvalidInclude msg)"
  using assms(1,2)
proof (induction incl arbitrary: kw ri)
  case Nil
  then show ?case by simp
next
  case (Cons q qs)
  show ?case
  proof (cases "map_of (cls_declared_fields cls) (first_segment q)")
    case None
    then show ?thesis by (simp add: Let_def)
  next
    case (Some f)
    show ?thesis
    proof (cases f)
      case Attribute
      then show ?thesis using Some by (simp add: Let_def)
    next
      case (Relationship rs)
      then have "p \<noteq> q" using Some assms(3) by auto
      then have p: "p \<in> set qs" using Cons.prems(2) by simp
      from Cons.prems(1) obtain t where t: "kw_include_data kw = Some t" by auto
      show ?thesis
        using Some Relationship t Cons.IH [OF _ p]
        by (simp add: Let_def)
    qed
  qed
qed

text \<open>
  C9: an include path whose first segment is not a declared field of the schema, or is a
  declared field that is not a relationship, makes \<open>compute_schema\<close> fail with
  \<open>InvalidInclude\<close>, wherever the path stands in the list and whatever the other
  arguments are: the path is never ignored.
\<close>

theorem invalid_include_is_rejected:
  assumes "p \<in> set incl"
    and "map_of (cls_declared_fields cls) (first_segment p) = None
       \<or> map_of (cls_declared_fields cls) (first_segment p) = Some Attribute"
  shows "\<exists>msg. fst (compute_schema tuple_of registry cls kw qs incl) = Inl (InvalidInclude msg)"
proof -
  have "kw_include_data (kw\<lparr>kw_include_data := Some []\<rparr>) \<noteq> None" by simp
  from collect_includes_invalid [OF this assms, of "[]"] obtain msg where
    "fst (collect_includes cls incl (kw\<lparr>kw_include_data := Some []\<rparr>) []) = Inl (InvalidInclude msg)"
    by blast
  then have "fst (compute_schema tuple_of registry cls kw qs incl) = Inl (InvalidInclude msg)"
    by (cases "collect_includes cls incl (kw\<lparr>kw_include_data := Some []\<rparr>) []") simp
  then show ?thesis by blast
qed

theorem invalid_include_is_rejected_witness:
  "''title.x'' \<in> set [''author'', ''title.x'']
   \<and> map_of (cls_declared_fields (SchemaCls ''PostSchema'' ''post''
        [(''id'', Attribute), (''title'', Attribute),
         (''author'', Relationship (ClassName ''AuthorSchema''))])) (first_segment ''title.x'')
       = Some Attribute
   \<and> (\<exists>msg. fst (compute_schema sorted_list_of_set Map.empty
         (SchemaCls ''PostSchema'' ''post''
            [(''id'', Attribute), (''title'', Attribute),
             (''author'', Relationship (ClassName ''AuthorSchema''))])
         empty_kwargs [] [''author'', ''title.x'']) = Inl (InvalidInclude msg))
   \<and> ''nope'' \<in> set [''nope'']
   \<and> map_of (cls_declared_fields (SchemaCls ''PostSchema'' ''post''
        [(''id'', Attribute), (''title'', Attribute),
         (''author'', Relationship (ClassName ''AuthorSchema''))])) (first_segment ''nope'')
       = None
   \<and> (\<exists>msg. fst (compute_schema sorted_list_of_set Map.empty
         (SchemaCls ''PostSchema'' ''post''
            [(''id'', Attribute), (''title'', Attribute),
             (''author'', Relationship (ClassName ''AuthorSchema''))])
         empty_kwargs [] [''nope'']) = Inl (InvalidInclude msg))"
proof -
  let ?C = "SchemaCls ''PostSchema'' ''post''
        [(''id'', Attribute), (''title'', Attribute),
         (''author'', Relationship (ClassName ''AuthorSchema''))]"
  have m1: "''title.x'' \<in> set [''author'', ''title.x'']" by simp
  have f1: "map_of (cls_declared_fields ?C) (first_segment ''title.x'') = Some Attribute"
    by code_simp
  have m2: "''nope'' \<in> set [''nope'']" by simp
  have f2: "map_of (cls_declared_fields ?C) (first_segment ''nope'') = None"
    by code_simp
  show ?thesis
    using invalid_include_is_rejected [OF m1 disjI2 [OF f1], of sorted_list_of_set Map.empty empty_kwargs "[]"]
      invalid_include_is_rejected [OF m2 disjI1 [OF f2], of sorted_list_of_set Map.empty empty_kwargs "[]"]
      f1 f2
    by simp
qed


section \<open>Projection: sparse fieldsets\<close>

lemma collect_includes_only:
  "collect_includes cls incl kw ri = (r, kw') \<Longrightarrow> kw_only kw' = kw_only kw \<and> kw_many kw' = kw_many kw"
proof (induction incl arbitrary: kw ri)
  case Nil
  then show ?case by auto
next
  case (Cons q qs)
  show ?case
  proof (cases "map_of (cls_declared_fields cls) (first_segment q)")
    case None
    then show ?thesis using Cons.prems by (auto simp: Let_def)
  next
    case (Some f)
    show ?thesis
    proof (cases f)
      case Attribute
      then show ?thesis using Some Cons.prems by (auto simp: Let_def)
    next
      case (Relationship rs)
      show ?thesis
      proof (cases "kw_include_data kw")
        case None
        then show ?thesis using Some Relationship Cons.prems by (auto simp: Let_def)
      next
        case (Some t)
        from Cons.prems \<open>map_of (cls_declared_fields cls) (first_segment q) = Some f\<close>
          Relationship Some
        obtain ri' where
          "collect_includes cls qs (kw\<lparr>kw_include_data := Some (t @ [first_segment q])\<rparr>) ri' = (r, kw')"
          by (auto simp: Let_def)
        from Cons.IH [OF this] show ?thesis by simp
      qed
    qed
  qed
qed

lemma compound_documents_keeps:
  "compound_documents tuple_of registry qs ri ps s = Inr s' \<Longrightarrow>
   only s' = only s \<and> schema_class s' = schema_class s
   \<and> map fst (declared_fields s') = map fst (declared_fields s)"
proof (induction ps arbitrary: s)
  case Nil
  then show ?case by simp
next
  case (Cons p ps)
  let ?f = "first_segment p"
  from Cons.prems obtain rs rcls rkw sub rel where
    f: "map_of (declared_fields s) ?f = Some (Relationship rs)" and
    "related_schema_cls registry rs = Inr (rcls, rkw)" and
    "map_of ri ?f = Some sub" and
    "fst (compute_schema tuple_of registry rcls rkw qs sub) = Inr rel" and
    step: "compound_documents tuple_of registry qs ri ps (set_related_schema ?f rel s) = Inr s'"
    by (auto split: option.splits schema_field.splits sum.splits)
  have "?f \<in> fst ` set (declared_fields s)"
    using f by (metis domI dom_map_of_conv_image_fst)
  then have "map fst (declared_fields (set_related_schema ?f rel s)) = map fst (declared_fields s)"
    by (simp add: set_related_schema_def update_keys)
  then show ?case using Cons.IH [OF step] by (simp add: set_related_schema_def)
qed

lemma kw_only_ensure_id:
  "kw_only (ensure_id kw) =
     (case kw_only kw of None \<Rightarrow> None
      | Some t \<Rightarrow> Some (if ''id'' \<in> set t then t else t @ [''id'']))"
  by (simp add: ensure_id_def split: option.splits)

lemma new_schema_Inr:
  assumes "new_schema cls kw = Inr s0"
  shows "schema_class s0 = cls" and "declared_fields s0 = cls_declared_fields cls"
    and "only s0 = map_option (\<lambda>t. OnlySet (set t)) (kw_only kw)"
    and "cls_type cls \<noteq> []" and "''id'' \<in> fst ` set (cls_declared_fields cls)"
proof -
  from assms have ok: "cls_type cls \<noteq> []" "map_of (selected_fields cls (kw_only kw)) ''id'' \<noteq> None"
    and s0: "s0 = Schema cls (map_option (\<lambda>t. OnlySet (set t)) (kw_only kw))
                     (case kw_include_data kw of None \<Rightarrow> [] | Some t \<Rightarrow> t)
                     (case kw_many kw of None \<Rightarrow> False | Some b \<Rightarrow> b)
                     (cls_declared_fields cls)"
    by (auto simp: new_schema_def Let_def split: if_splits)
  show "schema_class s0 = cls" and "declared_fields s0 = cls_declared_fields cls"
    and "only s0 = map_option (\<lambda>t. OnlySet (set t)) (kw_only kw)"
    using s0 by simp_all
  show "cls_type cls \<noteq> []" by (rule ok(1))
  from ok(2) obtain f where "map_of (selected_fields cls (kw_only kw)) ''id'' = Some f" by auto
  then have "(''id'', f) \<in> set (selected_fields cls (kw_only kw))" by (rule map_of_SomeD)
  then have "(''id'', f) \<in> set (cls_declared_fields cls)"
    by (auto simp: selected_fields_def split: option.splits)
  then show "''id'' \<in> fst ` set (cls_declared_fields cls)" by force
qed

lemma sparse_fieldsets_only:
  assumes "sparse_fieldsets tuple_of qs s0 = Inr s1"
    and "fields_qs qs = Inr fs" and "map_of fs (cls_type (schema_class s0)) = Some requested"
    and "X = set (map fst (declared_fields s0)) \<inter> set requested
           \<inter> (case only s0 of None \<Rightarrow> UNIV
               | Some v \<Rightarrow> if only_names v \<noteq> {} then only_names v else UNIV)"
  shows "only s1 = Some (OnlyTuple
            (if ''id'' \<in> set (tuple_of X) then tuple_of X else tuple_of X @ [''id'']))"
  using assms by (auto simp: sparse_fieldsets_def Let_def split: option.splits)

lemma sparse_fieldsets_no_entry:
  assumes "sparse_fieldsets tuple_of qs s0 = Inr s1"
    and "fields_qs qs = Inr fs" and "map_of fs (cls_type (schema_class s0)) = None"
  shows "s1 = s0"
  using assms by (simp add: sparse_fieldsets_def)

text \<open>The stages of a successful call.\<close>

lemma compute_schema_stages:
  assumes "fst (compute_schema tuple_of registry cls kw qs incl) = Inr s"
  shows "\<exists>ri kw1 s0 s1.
      collect_includes cls incl (kw\<lparr>kw_include_data := Some []\<rparr>) [] = (Inr ri, kw1)
      \<and> new_schema cls (ensure_id kw1) = Inr s0
      \<and> sparse_fieldsets tuple_of qs s0 = Inr s1
      \<and> compound_documents tuple_of registry qs ri incl s1 = Inr s"
proof -
  obtain r kw1 where c: "collect_includes cls incl (kw\<lparr>kw_include_data := Some []\<rparr>) [] = (r, kw1)"
    by (cases "collect_includes cls incl (kw\<lparr>kw_include_data := Some []\<rparr>) []")
  from assms c obtain ri where r: "r = Inr ri"
    by (cases r) auto
  from assms c r obtain s0 where n: "new_schema cls (ensure_id kw1) = Inr s0"
    by (cases "new_schema cls (ensure_id kw1)") auto
  from assms c r n obtain s1 where sp: "sparse_fieldsets tuple_of qs s0 = Inr s1"
    by (cases "sparse_fieldsets tuple_of qs s0") auto
  from assms c r n sp have "compound_documents tuple_of registry qs ri incl s1 = Inr s"
    by simp
  then show ?thesis using c r n sp by blast
qed

lemma compute_schema_sparse_only:
  assumes "fst (compute_schema tuple_of registry cls kw qs incl) = Inr s"
    and "fields_qs qs = Inr fs" and "map_of fs (cls_type cls) = Some requested"
  shows "only s = Some (OnlyTuple
           (if ''id'' \<in> set (tuple_of (requested_set cls kw requested))
            then tuple_of (requested_set cls kw requested)
            else tuple_of (requested_set cls kw requested) @ [''id'']))"
proof -
  from compute_schema_stages [OF assms(1)] obtain ri kw1 s0 s1 where
    c: "collect_includes cls incl (kw\<lparr>kw_include_data := Some []\<rparr>) [] = (Inr ri, kw1)" and
    n: "new_schema cls (ensure_id kw1) = Inr s0" and
    sp: "sparse_fieldsets tuple_of qs s0 = Inr s1" and
    cd: "compound_documents tuple_of registry qs ri incl s1 = Inr s"
    by blast
  have o1: "kw_only kw1 = kw_only kw" using collect_includes_only [OF c] by simp
  note s0 = new_schema_Inr(1-3) [OF n]
  have X: "requested_set cls kw requested =
      set (map fst (declared_fields s0)) \<inter> set requested
        \<inter> (case only s0 of None \<Rightarrow> UNIV
            | Some v \<Rightarrow> if only_names v \<noteq> {} then only_names v else UNIV)"
    by (cases "kw_only kw")
      (auto simp: requested_set_def s0 kw_only_ensure_id o1)
  have "only s = only s1" using compound_documents_keeps [OF cd] by simp
  also have "\<dots> = Some (OnlyTuple
           (if ''id'' \<in> set (tuple_of (requested_set cls kw requested))
            then tuple_of (requested_set cls kw requested)
            else tuple_of (requested_set cls kw requested) @ [''id'']))"
    using sparse_fieldsets_only [OF sp assms(2) _ X] assms(3) s0(1) by simp
  finally show ?thesis .
qed

text \<open>
  C8: when the directives hold a sparse fieldset for the type of the schema, the fields of
  the projected schema are, as a set, the declared fields that are requested and, where the
  caller passed \<open>only\<close>, allowed by it, together with \<open>id\<close>: \<open>id\<close> is always among
  them, requested or not.
\<close>

theorem sparse_fieldset_visible_set:
  assumes "fst (compute_schema tuple_of registry cls kw qs incl) = Inr s"
    and "fields_qs qs = Inr fs" and "map_of fs (cls_type cls) = Some requested"
    and "set_iteration_order tuple_of"
  shows "\<exists>t. only s = Some (OnlyTuple t)
     \<and> set t = (set (map fst (cls_declared_fields cls))
                  \<inter> (case kw_only kw of None \<Rightarrow> UNIV | Some allowed \<Rightarrow> set allowed)
                  \<inter> set requested) \<union> {''id''}
     \<and> ''id'' \<in> set t"
proof -
  let ?X = "requested_set cls kw requested"
  let ?t = "if ''id'' \<in> set (tuple_of ?X) then tuple_of ?X else tuple_of ?X @ [''id'']"
  have "finite ?X" by (simp add: requested_set_def)
  then have X: "set (tuple_of ?X) = ?X"
    using assms(4) by (simp add: set_iteration_order_def)
  have "only s = Some (OnlyTuple ?t)"
    using compute_schema_sparse_only [OF assms(1-3)] .
  moreover have "set ?t = ?X \<union> {''id''}"
    using X by auto
  moreover have "?X \<union> {''id''} = (set (map fst (cls_declared_fields cls))
                  \<inter> (case kw_only kw of None \<Rightarrow> UNIV | Some allowed \<Rightarrow> set allowed)
                  \<inter> set requested) \<union> {''id''}"
    by (cases "kw_only kw") (auto simp: requested_set_def)
  ultimately show ?thesis by auto
qed

theorem sparse_fieldset_visible_set_witness:
  "fst (compute_schema sorted_list_of_set Map.empty
          (SchemaCls ''UserSchema'' ''user''
             [(''id'', Attribute), (''name'', Attribute), (''email'', Attribute)])
          empty_kwargs [(''fields[user]'', ''name,phone'')] [])
     = Inr (Schema (SchemaCls ''UserSchema'' ''user''
                      [(''id'', Attribute), (''name'', Attribute), (''email'', Attribute)])
              (Some (OnlyTuple [''name'', ''id''])) [] False
              [(''id'', Attribute), (''name'', Attribute), (''email'', Attribute)])
   \<and> fields_qs [(''fields[user]'', ''name,phone'')] = Inr [(''user'', [''name'', ''phone''])]
   \<and> map_of [(''user'', [''name'', ''phone''])] ''user'' = Some [''name'', ''phone'']
   \<and> set_iteration_order sorted_list_of_set
   \<and> set [''name'', ''id''] =
       (set [''id'', ''name'', ''email''] \<inter> UNIV \<inter> set [''name'', ''phone'']) \<union> {''id''}"
proof -
  let ?C = "SchemaCls ''UserSchema'' ''user''
             [(''id'', Attribute), (''name'', Attribute), (''email'', Attribute)]"
  let ?S = "Schema ?C (Some (OnlyTuple [''name'', ''id''])) [] False
              [(''id'', Attribute), (''name'', Attribute), (''email'', Attribute)]"
  have run: "fst (compute_schema sorted_list_of_set Map.empty ?C empty_kwargs
               [(''fields[user]'', ''name,phone'')] []) = Inr ?S"
    by code_simp
  have fs: "fields_qs [(''fields[user]'', ''name,phone'')] = Inr [(''user'', [''name'', ''phone''])]"
    by code_simp
  have entry: "map_of [(''user'', [''name'', ''phone''])] (cls_type ?C) = Some [''name'', ''phone'']"
    by simp
  have iter: "set_iteration_order sorted_list_of_set"
    by (simp add: set_iteration_order_def)
  from sparse_fieldset_visible_set [OF run fs entry iter]
  have "set [''name'', ''id''] =
       (set [''id'', ''name'', ''email''] \<inter> UNIV \<inter> set [''name'', ''phone'']) \<union> {''id''}"
    by (simp add: empty_kwargs_def)
  then show ?thesis using run fs iter by simp
qed

text \<open>
  C3, as the specification states it: the visible fields come in the declaration order of
  the schema, and without include paths and without a sparse fieldset for the type they are
  all the declared fields. With the fields \<open>id\<close>, \<open>name\<close>, \<open>email\<close> declared and
  \<open>fields[user]=name\<close> requested, the projection lists \<open>name\<close> before \<open>id\<close>, which
  the declaration has the other way round (the set handed to \<open>tuple\<close> has the one
  element \<open>name\<close>, so its iteration order plays no part); and with \<open>only = ('email',)\<close>
  passed by the caller and no sparse fieldset, the projection is restricted to the set of
  \<open>email\<close> and \<open>id\<close>.
\<close>

theorem visible_fields_order_counterexample:
  "fst (compute_schema sorted_list_of_set Map.empty
          (SchemaCls ''UserSchema'' ''user''
             [(''id'', Attribute), (''name'', Attribute), (''email'', Attribute)])
          empty_kwargs [(''fields[user]'', ''name'')] [])
     = Inr (Schema (SchemaCls ''UserSchema'' ''user''
                      [(''id'', Attribute), (''name'', Attribute), (''email'', Attribute)])
              (Some (OnlyTuple [''name'', ''id''])) [] False
              [(''id'', Attribute), (''name'', Attribute), (''email'', Attribute)])
   \<and> map fst (cls_declared_fields (SchemaCls ''UserSchema'' ''user''
             [(''id'', Attribute), (''name'', Attribute), (''email'', Attribute)]))
       = [''id'', ''name'', ''email'']
   \<and> fst (compute_schema sorted_list_of_set Map.empty
          (SchemaCls ''UserSchema'' ''user''
             [(''id'', Attribute), (''name'', Attribute), (''email'', Attribute)])
          \<lparr>kw_only = Some [''email''], kw_include_data = None, kw_many = None\<rparr> [] [])
     = Inr (Schema (SchemaCls ''UserSchema'' ''user''
                      [(''id'', Attribute), (''name'', Attribute), (''email'', Attribute)])
              (Some (OnlySet {''email'', ''id''})) [] False
              [(''id'', Attribute), (''name'', Attribute), (''email'', Attribute)])"
  by code_simp

text \<open>
  C3, amended: a successful projection with a sparse fieldset for the type has as \<open>only\<close>
  the tuple of a set, in the iteration order of that set, which need not be the declaration
  order, followed by \<open>id\<close> when \<open>id\<close> is not in the set. The set holds the declared
  fields that are requested and, where the caller passed \<open>only\<close>, that are \<open>id\<close> or in
  the caller's \<open>only\<close>. A successful projection without include paths, without a sparse
  fieldset for the type and without \<open>only\<close> from the caller carries no restriction: its
  fields are the declared fields of the class, in declaration order.
\<close>

theorem visible_fields_order:
  "(fst (compute_schema tuple_of registry cls kw qs incl) = Inr s \<and> fields_qs qs = Inr fs
      \<and> map_of fs (cls_type cls) = Some requested \<longrightarrow>
      only s = Some (OnlyTuple
        (if ''id'' \<in> set (tuple_of (requested_set cls kw requested))
         then tuple_of (requested_set cls kw requested)
         else tuple_of (requested_set cls kw requested) @ [''id''])))
   \<and> (fst (compute_schema tuple_of registry cls kw qs []) = Inr s \<and> fields_qs qs = Inr fs
        \<and> map_of fs (cls_type cls) = None \<and> kw_only kw = None \<longrightarrow>
      only s = None \<and> schema_class s = cls \<and> declared_fields s = cls_declared_fields cls)"
proof (rule conjI)
  show "fst (compute_schema tuple_of registry cls kw qs incl) = Inr s \<and> fields_qs qs = Inr fs
      \<and> map_of fs (cls_type cls) = Some requested \<longrightarrow>
      only s = Some (OnlyTuple
        (if ''id'' \<in> set (tuple_of (requested_set cls kw requested))
         then tuple_of (requested_set cls kw requested)
         else tuple_of (requested_set cls kw requested) @ [''id'']))"
    using compute_schema_sparse_only by blast
next
  show "fst (compute_schema tuple_of registry cls kw qs []) = Inr s \<and> fields_qs qs = Inr fs
        \<and> map_of fs (cls_type cls) = None \<and> kw_only kw = None \<longrightarrow>
      only s = None \<and> schema_class s = cls \<and> declared_fields s = cls_declared_fields cls"
  proof (rule impI)
    assume a: "fst (compute_schema tuple_of registry cls kw qs []) = Inr s \<and> fields_qs qs = Inr fs
        \<and> map_of fs (cls_type cls) = None \<and> kw_only kw = None"
    then have run: "fst (compute_schema tuple_of registry cls kw qs []) = Inr s" by simp
    from compute_schema_stages [OF run] obtain ri kw1 s0 s1 where
      c: "collect_includes cls [] (kw\<lparr>kw_include_data := Some []\<rparr>) [] = (Inr ri, kw1)" and
      n: "new_schema cls (ensure_id kw1) = Inr s0" and
      sp: "sparse_fieldsets tuple_of qs s0 = Inr s1" and
      cd: "compound_documents tuple_of registry qs ri [] s1 = Inr s"
      by blast
    have o1: "kw_only kw1 = None" using collect_includes_only [OF c] a by simp
    note s0 = new_schema_Inr(1-3) [OF n]
    have "s1 = s0"
      using sparse_fieldsets_no_entry [OF sp, of fs] a s0(1) by simp
    moreover have "s = s1" using cd by simp
    ultimately have "s = s0" by simp
    then show "only s = None \<and> schema_class s = cls \<and> declared_fields s = cls_declared_fields cls"
      using s0 o1 by (simp add: kw_only_ensure_id)
  qed
qed

theorem visible_fields_order_witness:
  "fst (compute_schema sorted_list_of_set Map.empty
          (SchemaCls ''UserSchema'' ''user''
             [(''id'', Attribute), (''name'', Attribute), (''email'', Attribute)])
          empty_kwargs [(''fields[user]'', ''name,email'')] [])
     = Inr (Schema (SchemaCls ''UserSchema'' ''user''
                      [(''id'', Attribute), (''name'', Attribute), (''email'', Attribute)])
              (Some (OnlyTuple [''email'', ''name'', ''id''])) [] False
              [(''id'', Attribute), (''name'', Attribute), (''email'', Attribute)])
   \<and> fields_qs [(''fields[user]'', ''name,email'')] = Inr [(''user'', [''name'', ''email''])]
   \<and> map_of [(''user'', [''name'', ''email''])] ''user'' = Some [''name'', ''email'']
   \<and> sorted_list_of_set (requested_set (SchemaCls ''UserSchema'' ''user''
             [(''id'', Attribute), (''name'', Attribute), (''email'', Attribute)])
          empty_kwargs [''name'', ''email'']) = [''email'', ''name'']
   \<and> fst (compute_schema sorted_list_of_set Map.empty
          (SchemaCls ''UserSchema'' ''user''
             [(''id'', Attribute), (''name'', Attribute), (''email'', Attribute)])
          empty_kwargs [] [])
     = Inr (Schema (SchemaCls ''UserSchema'' ''user''
                      [(''id'', Attribute), (''name'', Attribute), (''email'', Attribute)])
              None [] False
              [(''id'', Attribute), (''name'', Attribute), (''email'', Attribute)])
   \<and> fields_qs [] = Inr []
   \<and> map_of ([] :: (string \<times> string list) list) ''user'' = None
   \<and> kw_only empty_kwargs = None
   \<and> only (Schema (SchemaCls ''UserSchema'' ''user''
                      [(''id'', Attribute), (''name'', Attribute), (''email'', Attribute)])
              None [] False
              [(''id'', Attribute), (''name'', Attribute), (''email'', Attribute)]) = None"
proof -
  let ?D = "[(''id'', Attribute), (''name'', Attribute), (''email'', Attribute)]"
  let ?C = "SchemaCls ''UserSchema'' ''user'' ?D"
  let ?S = "Schema ?C (Some (OnlyTuple [''email'', ''name'', ''id''])) [] False ?D"
  let ?S2 = "Schema ?C None [] False ?D"
  let ?q = "[(''fields[user]'', ''name,email'')]"
  have run: "fst (compute_schema sorted_list_of_set Map.empty ?C empty_kwargs ?q []) = Inr ?S"
    by code_simp
  have run2: "fst (compute_schema sorted_list_of_set Map.empty ?C empty_kwargs [] []) = Inr ?S2"
    by code_simp
  have fs: "fields_qs ?q = Inr [(''user'', [''name'', ''email''])]"
    by code_simp
  have entry: "map_of [(''user'', [''name'', ''email''])] (cls_type ?C) = Some [''name'', ''email'']"
    by simp
  have fs0: "fields_qs [] = Inr []" by code_simp
  have none: "map_of ([] :: (string \<times> string list) list) (cls_type ?C) = None" by simp
  have k: "kw_only empty_kwargs = None" by (simp add: empty_kwargs_def)
  have x: "sorted_list_of_set (requested_set ?C empty_kwargs [''name'', ''email''])
      = [''email'', ''name'']"
    by code_simp
  note t1 = visible_fields_order [of sorted_list_of_set Map.empty ?C empty_kwargs ?q "[]" ?S
      "[(''user'', [''name'', ''email''])]" "[''name'', ''email'']"]
  note t2 = visible_fields_order [of sorted_list_of_set Map.empty ?C empty_kwargs "[]" "[]" ?S2
      "[]" "[''name'', ''email'']"]
  have a2: "only ?S2 = None"
    using t2 run2 fs0 none k by (simp del: compute_schema.simps)
  have a1: "only ?S = Some (OnlyTuple
        (if ''id'' \<in> set (sorted_list_of_set (requested_set ?C empty_kwargs [''name'', ''email'']))
         then sorted_list_of_set (requested_set ?C empty_kwargs [''name'', ''email''])
         else sorted_list_of_set (requested_set ?C empty_kwargs [''name'', ''email'']) @ [''id'']))"
    using t1 run fs entry by (simp del: compute_schema.simps)
  show ?thesis using run run2 fs fs0 k x a1 a2 by (simp del: compute_schema.simps)
qed

section \<open>Projection: the constructor and the included relationships\<close>

text \<open>Where the constructor refuses its arguments, \<open>compute_schema\<close> fails with its
  \<open>ValueError\<close>: for a class without \<open>id\<close>, and for an include path whose field the
  caller's \<open>only\<close> leaves out.\<close>

lemma compute_schema_constructor_errors:
  "fst (compute_schema sorted_list_of_set Map.empty
          (SchemaCls ''TagSchema'' ''tag'' [(''name'', Attribute)]) empty_kwargs [] [])
     = Inl ValueError
   \<and> fst (compute_schema sorted_list_of_set Map.empty
          (SchemaCls ''PostSchema'' ''post''
             [(''id'', Attribute), (''title'', Attribute),
              (''author'', Relationship (ClassName ''AuthorSchema''))])
          \<lparr>kw_only = Some [''title''], kw_include_data = None, kw_many = None\<rparr> [] [''author''])
     = Inl ValueError"
  by code_simp

text \<open>After a successful call every included relationship field of the instance holds a
  computed schema.\<close>

lemma compound_documents_instances:
  assumes "compound_documents tuple_of registry qs ri ps s = Inr s'"
    and "f \<in> first_segment ` set ps
       \<or> (\<exists>rel. map_of (declared_fields s) f = Some (Relationship (SchemaInstance rel)))"
  shows "\<exists>rel. map_of (declared_fields s') f = Some (Relationship (SchemaInstance rel))"
  using assms
proof (induction ps arbitrary: s)
  case Nil
  then show ?case by simp
next
  case (Cons p ps)
  let ?f = "first_segment p"
  from Cons.prems(1) obtain rel where
    step: "compound_documents tuple_of registry qs ri ps (set_related_schema ?f rel s) = Inr s'"
    by (auto split: option.splits schema_field.splits sum.splits)
  let ?s2 = "set_related_schema ?f rel s"
  have upd: "map_of (declared_fields ?s2) =
      (map_of (declared_fields s))(?f \<mapsto> Relationship (SchemaInstance rel))"
    by (simp add: set_related_schema_def update_conv')
  have "f \<in> first_segment ` set ps
       \<or> (\<exists>rel'. map_of (declared_fields ?s2) f = Some (Relationship (SchemaInstance rel')))"
  proof (cases "f = ?f")
    case True
    then show ?thesis using upd by simp
  next
    case False
    then show ?thesis using Cons.prems(2) upd by auto
  qed
  from Cons.IH [OF step this] show ?case .
qed

lemma compute_schema_expands_includes:
  assumes "fst (compute_schema tuple_of registry cls kw qs incl) = Inr s" and "p \<in> set incl"
  shows "\<exists>rel. map_of (declared_fields s) (first_segment p) = Some (Relationship (SchemaInstance rel))"
proof -
  from compute_schema_stages [OF assms(1)] obtain ri s1 where
    "compound_documents tuple_of registry qs ri incl s1 = Inr s"
    by blast
  from compound_documents_instances [OF this, of "first_segment p"] assms(2)
  show ?thesis by blast
qed

section \<open>Projection and the dictionary of its caller\<close>

text \<open>Whatever the arguments, the dictionary holds \<open>include_data\<close> after the call;
  without include paths it is the caller's dictionary with \<open>include_data\<close> set to the
  empty tuple and \<open>id\<close> appended to \<open>only\<close>.\<close>

lemma compute_schema_no_include:
  "snd (compute_schema tuple_of registry cls kw qs []) = ensure_id (kw\<lparr>kw_include_data := Some []\<rparr>)"
  by (simp split: sum.splits)

lemma collect_includes_include_data:
  "kw_include_data kw \<noteq> None \<Longrightarrow> kw_include_data (snd (collect_includes cls incl kw ri)) \<noteq> None"
proof (induction incl arbitrary: kw ri)
  case Nil
  then show ?case by simp
next
  case (Cons q qs)
  from Cons.prems obtain t where t: "kw_include_data kw = Some t" by auto
  show ?case
  proof (cases "map_of (cls_declared_fields cls) (first_segment q)")
    case None
    then show ?thesis using Cons.prems by (simp add: Let_def)
  next
    case (Some f)
    then show ?thesis using Cons.prems t Cons.IH
      by (cases f) (simp_all add: Let_def)
  qed
qed

lemma compute_schema_sets_include_data:
  "kw_include_data (snd (compute_schema tuple_of registry cls kw qs incl)) \<noteq> None"
proof -
  let ?kw0 = "kw\<lparr>kw_include_data := Some []\<rparr>"
  obtain r kw1 where c: "collect_includes cls incl ?kw0 [] = (r, kw1)"
    by (cases "collect_includes cls incl ?kw0 []")
  have "kw_include_data (snd (collect_includes cls incl ?kw0 [])) \<noteq> None"
    by (rule collect_includes_include_data) simp
  then have k1: "kw_include_data kw1 \<noteq> None" using c by simp
  then have k2: "kw_include_data (ensure_id kw1) \<noteq> None"
    by (simp add: ensure_id_def split: option.splits)
  show ?thesis using c k1 k2
    by (cases r) (auto split: sum.splits)
qed

text \<open>
  C4: \<open>compute_schema\<close> leaves the options dictionary of its caller as it was. The
  function writes \<open>include_data\<close> into that very dictionary and appends \<open>id\<close> to its
  \<open>only\<close> entry: called with \<open>{'only': ('name',)}\<close> and no include path, it returns
  with the dictionary holding \<open>only = ('name', 'id')\<close> and \<open>include_data = ()\<close>.
\<close>

theorem compute_schema_writes_default_kwargs:
  "snd (compute_schema sorted_list_of_set Map.empty
     (SchemaCls ''UserSchema'' ''user'' [(''id'', Attribute), (''name'', Attribute)])
     \<lparr>kw_only = Some [''name''], kw_include_data = None, kw_many = None\<rparr> [] [])
   = \<lparr>kw_only = Some [''name'', ''id''], kw_include_data = Some [], kw_many = None\<rparr>"
  by code_simp

end
